theory Spec2Isabelle
  imports Main "HOL-Library.Sublist"
begin

section \<open>The template renderer of newspaper/build.js\<close>

text \<open>
  The renderer is the function \<^verbatim>\<open>render(template, data)\<close> of
  \<^verbatim>\<open>src/newspaper/build.js\<close> with its helper \<^verbatim>\<open>getNestedValue\<close>.
  A JavaScript string is modelled as a \<^typ>\<open>string\<close>: each \<^typ>\<open>char\<close> stands for the
  UTF-16 code unit of the same number, so the model covers the templates and texts whose
  code units lie in U+0000..U+00FF. Regular expressions without the \<^verbatim>\<open>u\<close> flag work
  on code units, as the functions below do.
\<close>

subsection \<open>Values\<close>

text \<open>
  The values \<^verbatim>\<open>render\<close> meets: the JSON values of a parsed content file, the value
  \<^verbatim>\<open>undefined\<close>, and the built-in objects of the runtime that a property read can
  reach through a prototype (functions such as \<^verbatim>\<open>Object.prototype.toString\<close>), which
  are kept opaque and carry a name only: a built-in object is truthy, and is neither an
  array nor a string nor a number. \<open>JNum n\<close> is the number whose value is the integer
  \<open>n\<close>, for the integers that a double holds exactly; numbers with a fraction are not in
  the model. An object is the list of its own properties; the first entry of a key is the
  property of that name.
\<close>

datatype jsval =
    JUndefined
  | JNull
  | JBool bool
  | JNum int
  | JStr string
  | JArr "jsval list"
  | JObj "(string \<times> jsval) list"
  | JBuiltin string

datatype error = TypeError

text \<open>
  What the code reads from the JavaScript runtime and is not part of the repository:
  the properties that strings, numbers, booleans, arrays and built-in objects inherit from
  their prototypes (\<open>protoGet\<close>, which may throw, as the accessor
  \<^verbatim>\<open>Function.prototype.caller\<close> does), the text of a built-in object
  (\<open>builtinText\<close>), and the text of a number of magnitude 10^21 or more, which
  \<^verbatim>\<open>Number::toString\<close> prints in exponent form, as \<^verbatim>\<open>1e+21\<close>
  (\<open>largeNumberText\<close>). They are parameters of the model.
\<close>

record runtime =
  protoGet :: "jsval \<Rightarrow> string \<Rightarrow> error + jsval"
  builtinText :: "string \<Rightarrow> error + string"
  largeNumberText :: "int \<Rightarrow> string"

definition bind :: "error + 'a \<Rightarrow> ('a \<Rightarrow> error + 'b) \<Rightarrow> error + 'b" where
  "bind m f = (case m of Inl e \<Rightarrow> Inl e | Inr v \<Rightarrow> f v)"

text \<open>JavaScript truthiness: \<^verbatim>\<open>undefined\<close>, \<^verbatim>\<open>null\<close>, \<^verbatim>\<open>false\<close>, \<^verbatim>\<open>0\<close> and
  \<^verbatim>\<open>""\<close> are falsy, every object (also an empty array) is truthy.\<close>

fun truthy :: "jsval \<Rightarrow> bool" where
  "truthy JUndefined = False"
| "truthy JNull = False"
| "truthy (JBool b) = b"
| "truthy (JNum n) = (n \<noteq> 0)"
| "truthy (JStr s) = (s \<noteq> [])"
| "truthy (JArr items) = True"
| "truthy (JObj members) = True"
| "truthy (JBuiltin name) = True"

subsection \<open>Text of a value\<close>

definition digit_chars :: string where
  "digit_chars = ''0123456789''"

fun digits :: "nat \<Rightarrow> string" where
  "digits n = (if n < 10 then [digit_chars ! n] else digits (n div 10) @ [digit_chars ! (n mod 10)])"

declare digits.simps [simp del]

text \<open>
  \<^verbatim>\<open>Number::toString\<close> on an integer: below 10^21 in magnitude the decimal digits, with
  a minus sign for a negative number; from 10^21 on the exponent form, which the runtime
  gives.
\<close>

definition num_text :: "runtime \<Rightarrow> int \<Rightarrow> string" where
  "num_text rt n =
     (if 1000000000000000000000 \<le> \<bar>n\<bar> then largeNumberText rt n
      else if n < 0 then CHR ''-'' # digits (nat (- n))
      else digits (nat n))"

text \<open>\<^verbatim>\<open>Array.prototype.join\<close> on a list of strings.\<close>

fun join :: "string \<Rightarrow> string list \<Rightarrow> string" where
  "join sep [] = []"
| "join sep [x] = x"
| "join sep (x # y # ys) = x @ sep @ join sep (y # ys)"

text \<open>
  \<^verbatim>\<open>ToString\<close>, which \<^verbatim>\<open>String.prototype.replace\<close> applies to what a replacer function
  returns. An array prints as its elements joined by commas, \<^verbatim>\<open>null\<close> and
  \<^verbatim>\<open>undefined\<close> elements as nothing. An object prints through
  \<^verbatim>\<open>Object.prototype.toString\<close>, unless it has an own property \<^verbatim>\<open>toString\<close>: that one
  is never callable in a parsed JSON value, \<^verbatim>\<open>valueOf\<close> does not return a primitive,
  and the conversion throws a TypeError.
\<close>

fun toString :: "runtime \<Rightarrow> jsval \<Rightarrow> error + string"
  and joinElements :: "runtime \<Rightarrow> jsval list \<Rightarrow> error + string list"
where
  "toString rt JUndefined = Inr ''undefined''"
| "toString rt JNull = Inr ''null''"
| "toString rt (JBool b) = Inr (if b then ''true'' else ''false'')"
| "toString rt (JNum n) = Inr (num_text rt n)"
| "toString rt (JStr s) = Inr s"
| "toString rt (JArr items) = bind (joinElements rt items) (\<lambda>texts. Inr (join '','' texts))"
| "toString rt (JObj members) =
     (case map_of members ''toString'' of
        Some v \<Rightarrow> Inl TypeError
      | None \<Rightarrow> Inr ''[object Object]'')"
| "toString rt (JBuiltin name) = builtinText rt name"
| "joinElements rt [] = Inr []"
| "joinElements rt (item # items) =
     bind (if item = JUndefined \<or> item = JNull then Inr [] else toString rt item) (\<lambda>text.
     bind (joinElements rt items) (\<lambda>texts. Inr (text # texts)))"

subsection \<open>Property reads\<close>

text \<open>
  The properties every object inherits from \<^verbatim>\<open>Object.prototype\<close> (ECMA-262, 20.1.3 and
  Annex B.2.2): eleven functions and the accessor \<^verbatim>\<open>__proto__\<close>, which returns the
  prototype itself.
\<close>

definition object_prototype_functions :: "string list" where
  "object_prototype_functions =
     [''constructor'', ''hasOwnProperty'', ''isPrototypeOf'', ''propertyIsEnumerable'',
      ''toLocaleString'', ''toString'', ''valueOf'', ''__defineGetter__'', ''__defineSetter__'',
      ''__lookupGetter__'', ''__lookupSetter__'']"

definition objectProto :: "string \<Rightarrow> jsval" where
  "objectProto key =
     (if key = ''__proto__'' then JBuiltin ''Object.prototype''
      else if key \<in> set object_prototype_functions then JBuiltin (''Object.prototype.'' @ key)
      else JUndefined)"

text \<open>
  An array index or string index is a key that is the decimal text of a number, without
  leading zeros.
\<close>

definition digit_val :: "char \<Rightarrow> nat option" where
  "digit_val c = map_of (zip digit_chars [0 ..< 10]) c"

fun read_digits :: "nat \<Rightarrow> string \<Rightarrow> nat option" where
  "read_digits acc [] = Some acc"
| "read_digits acc (c # cs) =
     (case digit_val c of None \<Rightarrow> None | Some d \<Rightarrow> read_digits (10 * acc + d) cs)"

definition index_of_key :: "string \<Rightarrow> nat option" where
  "index_of_key key =
     (if key = [] \<or> (hd key = CHR ''0'' \<and> key \<noteq> ''0'') then None else read_digits 0 key)"

text \<open>
  \<^verbatim>\<open>current[key]\<close>. Own properties come first: the members of an object, the elements
  and \<^verbatim>\<open>length\<close> of an array, the characters and \<^verbatim>\<open>length\<close> of a string; then the
  prototype. Reading a property of \<^verbatim>\<open>undefined\<close> or \<^verbatim>\<open>null\<close> throws.
\<close>

fun getProp :: "runtime \<Rightarrow> jsval \<Rightarrow> string \<Rightarrow> error + jsval" where
  "getProp rt JUndefined key = Inl TypeError"
| "getProp rt JNull key = Inl TypeError"
| "getProp rt (JObj members) key =
     (case map_of members key of Some v \<Rightarrow> Inr v | None \<Rightarrow> Inr (objectProto key))"
| "getProp rt (JArr items) key =
     (if key = ''length'' then Inr (JNum (int (length items)))
      else case index_of_key key of
        Some i \<Rightarrow> if i < length items then Inr (items ! i) else protoGet rt (JArr items) key
      | None \<Rightarrow> protoGet rt (JArr items) key)"
| "getProp rt (JStr s) key =
     (if key = ''length'' then Inr (JNum (int (length s)))
      else case index_of_key key of
        Some i \<Rightarrow> if i < length s then Inr (JStr [s ! i]) else protoGet rt (JStr s) key
      | None \<Rightarrow> protoGet rt (JStr s) key)"
| "getProp rt (JBool b) key = protoGet rt (JBool b) key"
| "getProp rt (JNum n) key = protoGet rt (JNum n) key"
| "getProp rt (JBuiltin name) key = protoGet rt (JBuiltin name) key"

subsection \<open>getNestedValue\<close>

text \<open>\<^verbatim>\<open>path.split('.')\<close>: always at least one segment, empty segments are kept.\<close>

fun split_dot :: "string \<Rightarrow> string list" where
  "split_dot [] = [[]]"
| "split_dot (c # cs) =
     (if c = CHR ''.'' then [] # split_dot cs
      else (case split_dot cs of [] \<Rightarrow> [[c]] | seg # segs \<Rightarrow> (c # seg) # segs))"

text \<open>
  \<^verbatim>\<open>
  function getNestedValue(obj, path) {
    return path.split('.').reduce((current, key) => {
      return current && current[key] !== undefined ? current[key] : undefined;
    }, obj);
  }
  \<close>
\<close>

definition step :: "runtime \<Rightarrow> error + jsval \<Rightarrow> string \<Rightarrow> error + jsval" where
  "step rt acc key =
     bind acc (\<lambda>current.
       if truthy current
       then bind (getProp rt current key) (\<lambda>v. if v \<noteq> JUndefined then Inr v else Inr JUndefined)
       else Inr JUndefined)"

definition getNestedValue :: "runtime \<Rightarrow> jsval \<Rightarrow> string \<Rightarrow> error + jsval" where
  "getNestedValue rt obj path = foldl (step rt) (Inr obj) (split_dot path)"

subsection \<open>The regular expressions\<close>

text \<open>\<^verbatim>\<open>\s\<close> on the code units up to U+00FF: tab, line feed, vertical tab, form feed,
  carriage return, space and no-break space. \<^verbatim>\<open>\S\<close> is its complement.\<close>

definition is_space :: "char \<Rightarrow> bool" where
  "is_space c \<longleftrightarrow>
     c = CHR 0x09 \<or> c = CHR 0x0A \<or> c = CHR 0x0B \<or> c = CHR 0x0C \<or> c = CHR 0x0D \<or>
     c = CHR 0x20 \<or> c = CHR 0xA0"

definition open_tag :: "string \<Rightarrow> string" where
  "open_tag key = ''{{#'' @ key @ ''}}''"

definition close_tag :: "string \<Rightarrow> string" where
  "close_tag key = ''{{/'' @ key @ ''}}''"

definition var_tag :: "string \<Rightarrow> string" where
  "var_tag key = ''{{'' @ key @ ''}}''"

text \<open>
  The lazy \<^verbatim>\<open>([\s\S]*?)\<close> followed by the literal closing tag: the text up to the first
  occurrence of the tag, and the text after it.
\<close>

fun find_close :: "string \<Rightarrow> string \<Rightarrow> (string \<times> string) option" where
  "find_close tag [] = (if tag = [] then Some ([], []) else None)"
| "find_close tag (c # cs) =
     (if prefix tag (c # cs) then Some ([], drop (length tag) (c # cs))
      else map_option (\<lambda>(body, rest). (c # body, rest)) (find_close tag cs))"

text \<open>
  \<^verbatim>\<open>/\{\{#(\S+?)\}\}([\s\S]*?)\{\{\/\1\}\}/\<close> tried at the start of a text. After
  \<^verbatim>\<open>{{#\<close> the lazy \<^verbatim>\<open>(\S+?)\<close> takes one character and grows by one character each time
  the rest of the pattern fails: \<open>section_key key s\<close> has taken \<open>key\<close> already and
  takes the next character of \<open>s\<close>. The result is the key, the body and the text after
  the match.
\<close>

fun section_key :: "string \<Rightarrow> string \<Rightarrow> (string \<times> string \<times> string) option" where
  "section_key key [] = None"
| "section_key key (c # cs) =
     (if is_space c then None
      else case (if prefix ''}}'' cs then find_close (close_tag (key @ [c])) (drop 2 cs) else None) of
        Some (body, rest) \<Rightarrow> Some (key @ [c], body, rest)
      | None \<Rightarrow> section_key (key @ [c]) cs)"

definition match_section :: "string \<Rightarrow> (string \<times> string \<times> string) option" where
  "match_section s = (if prefix ''{{#'' s then section_key [] (drop 3 s) else None)"

text \<open>\<^verbatim>\<open>/\{\{(\S+?)\}\}/\<close> tried at the start of a text: the key and the text after the match.\<close>

fun var_key :: "string \<Rightarrow> string \<Rightarrow> (string \<times> string) option" where
  "var_key key [] = None"
| "var_key key (c # cs) =
     (if is_space c then None
      else if prefix ''}}'' cs then Some (key @ [c], drop 2 cs)
      else var_key (key @ [c]) cs)"

definition match_var :: "string \<Rightarrow> (string \<times> string) option" where
  "match_var s = (if prefix ''{{'' s then var_key [] (drop 2 s) else None)"

subsection \<open>Replacement by a string\<close>

text \<open>
  \<^verbatim>\<open>content.replace(/\{\{\.\}\}/g, item)\<close> has a string (or a number, converted to one) as
  its replacement, and \<^verbatim>\<open>replace\<close> expands the dollar patterns of a replacement string
  (ECMA-262, GetSubstitution): \<^verbatim>\<open>$$\<close> is a dollar sign, \<^verbatim>\<open>$&\<close> the matched text,
  \<^verbatim>\<open>$`\<close> the text before the match and \<^verbatim>\<open>$'\<close> the text after it. The expression
  has no capture groups, so \<^verbatim>\<open>$1\<close> and \<^verbatim>\<open>$<\<close> stay as they are.
\<close>

fun substitution :: "string \<Rightarrow> string \<Rightarrow> string \<Rightarrow> string \<Rightarrow> string" where
  "substitution matched preceding following [] = []"
| "substitution matched preceding following [c] = [c]"
| "substitution matched preceding following (c # d # r) =
     (if c = CHR ''$'' \<and> d = CHR ''$'' then CHR ''$'' # substitution matched preceding following r
      else if c = CHR ''$'' \<and> d = CHR ''&'' then matched @ substitution matched preceding following r
      else if c = CHR ''$'' \<and> d = CHR ''`'' then preceding @ substitution matched preceding following r
      else if c = CHR ''$'' \<and> d = CHR 0x27 then following @ substitution matched preceding following r
      else c # substitution matched preceding following (d # r))"

text \<open>The global replacement of \<^verbatim>\<open>{{.}}\<close>: \<open>preceding\<close> is the text already scanned.\<close>

fun replace_self :: "string \<Rightarrow> string \<Rightarrow> string \<Rightarrow> string" where
  "replace_self replacement preceding [] = []"
| "replace_self replacement preceding (c # cs) =
     (if prefix ''{{.}}'' (c # cs)
      then substitution ''{{.}}'' preceding (drop 4 cs) replacement
           @ replace_self replacement (preceding @ ''{{.}}'') (drop 4 cs)
      else c # replace_self replacement (preceding @ [c]) cs)"

subsection \<open>Termination of the scans\<close>

text \<open>A match of either expression is the text it stands for, so what follows a match,
  and the body inside it, are shorter than the text scanned.\<close>

lemma bind_cong [fundef_cong]:
  "m = m' \<Longrightarrow> (\<And>v. m' = Inr v \<Longrightarrow> f v = f' v) \<Longrightarrow> bind m f = bind m' f'"
  by (auto simp: bind_def split: sum.splits)

lemma find_close_Some: "find_close tag s = Some (body, rest) \<Longrightarrow> s = body @ tag @ rest"
proof (induction s arbitrary: body)
  case Nil
  then show ?case by (simp split: if_splits)
next
  case (Cons c cs)
  show ?case
  proof (cases "prefix tag (c # cs)")
    case True
    with Cons.prems show ?thesis by (auto simp: prefix_def)
  next
    case False
    with Cons.prems obtain b where "find_close tag cs = Some (b, rest)" "body = c # b"
      by auto
    with Cons.IH show ?thesis by simp
  qed
qed

lemma section_key_Some:
  "section_key key s = Some (k, body, rest) \<Longrightarrow> key @ s = k @ ''}}'' @ body @ close_tag k @ rest"
proof (induction s arbitrary: key)
  case Nil
  then show ?case by simp
next
  case (Cons c cs)
  from Cons.prems have ns: "\<not> is_space c" by (auto split: if_splits)
  show ?case
  proof (cases "if prefix ''}}'' cs then find_close (close_tag (key @ [c])) (drop 2 cs) else None")
    case None
    with Cons.prems ns have "section_key (key @ [c]) cs = Some (k, body, rest)" by simp
    from Cons.IH [OF this] show ?thesis by simp
  next
    case (Some p)
    with Cons.prems ns have p: "p = (body, rest)" "k = key @ [c]" by (auto split: prod.splits)
    from Some p have pre: "prefix ''}}'' cs" and fc: "find_close (close_tag k) (drop 2 cs) = Some (body, rest)"
      by (auto split: if_splits)
    from pre have "cs = ''}}'' @ drop 2 cs" by (auto simp: prefix_def)
    with find_close_Some [OF fc] p show ?thesis by simp
  qed
qed

lemma match_section_Some:
  "match_section s = Some (k, body, rest) \<Longrightarrow> s = open_tag k @ body @ close_tag k @ rest"
proof -
  assume a: "match_section s = Some (k, body, rest)"
  then have pre: "prefix ''{{#'' s" and sk: "section_key [] (drop 3 s) = Some (k, body, rest)"
    by (auto simp: match_section_def split: if_splits)
  from pre have "s = ''{{#'' @ drop 3 s" by (auto simp: prefix_def)
  with section_key_Some [OF sk] show ?thesis by (simp add: open_tag_def)
qed

lemma var_key_Some: "var_key key s = Some (k, rest) \<Longrightarrow> key @ s = k @ ''}}'' @ rest"
proof (induction s arbitrary: key)
  case Nil
  then show ?case by simp
next
  case (Cons c cs)
  from Cons.prems have ns: "\<not> is_space c" by (auto split: if_splits)
  show ?case
  proof (cases "prefix ''}}'' cs")
    case True
    then have "cs = ''}}'' @ drop 2 cs" by (auto simp: prefix_def)
    with True Cons.prems ns show ?thesis by auto
  next
    case False
    with Cons.prems ns have "var_key (key @ [c]) cs = Some (k, rest)" by simp
    from Cons.IH [OF this] show ?thesis by simp
  qed
qed

lemma match_var_Some: "match_var s = Some (k, rest) \<Longrightarrow> s = var_tag k @ rest"
proof -
  assume a: "match_var s = Some (k, rest)"
  then have pre: "prefix ''{{'' s" and vk: "var_key [] (drop 2 s) = Some (k, rest)"
    by (auto simp: match_var_def split: if_splits)
  from pre have "s = ''{{'' @ drop 2 s" by (auto simp: prefix_def)
  with var_key_Some [OF vk] show ?thesis by (simp add: var_tag_def)
qed

lemma match_section_shorter:
  "match_section s = Some (k, body, rest) \<Longrightarrow> length body < length s \<and> length rest < length s"
  by (drule match_section_Some) (simp add: open_tag_def)

lemma match_var_shorter: "match_var s = Some (k, rest) \<Longrightarrow> length rest < length s"
  by (drule match_var_Some) (simp add: var_tag_def)

subsection \<open>render\<close>

text \<open>
  \<^verbatim>\<open>
  function render(template, data) {
    template = template.replace(/\{\{#(\S+?)\}\}([\s\S]*?)\{\{\/\1\}\}/g, (match, key, content) => {
      const value = getNestedValue(data, key);
      if (Array.isArray(value)) {
        return value.map(item => {
          if (typeof item === 'string' || typeof item === 'number') {
            return content.replace(/\{\{\.\}\}/g, item);
          } else {
            return render(content, item);
          }
        }).join('\n');
      } else if (value) {
        return render(content, value);
      } else {
        return '';
      }
    });
    template = template.replace(/\{\{(\S+?)\}\}/g, (match, key) => {
      if (key === '.') return match;
      const value = getNestedValue(data, key);
      return value !== undefined ? value : match;
    });
    return template;
  }
  \<close>
  A global \<^verbatim>\<open>replace\<close> scans the text from left to right: where the expression matches,
  the match is replaced by what the function returns (converted to a string, and not
  scanned again) and the scan goes on after the match; elsewhere the character is kept.
  \<open>variable\<close> and \<open>variables\<close> are the second replacement and its function,
  \<open>sections\<close> and \<open>expand_section\<close> the first, \<open>items\<close> is \<^verbatim>\<open>value.map\<close>.
\<close>

definition variable :: "runtime \<Rightarrow> jsval \<Rightarrow> string \<Rightarrow> error + string" where
  "variable rt data key =
     (if key = ''.'' then Inr (var_tag key)
      else bind (getNestedValue rt data key) (\<lambda>value.
        if value \<noteq> JUndefined then toString rt value else Inr (var_tag key)))"

function variables :: "runtime \<Rightarrow> jsval \<Rightarrow> string \<Rightarrow> error + string" where
  "variables rt data [] = Inr []"
| "variables rt data (c # cs) =
     (case match_var (c # cs) of
        None \<Rightarrow> bind (variables rt data cs) (\<lambda>out. Inr (c # out))
      | Some (key, rest) \<Rightarrow>
          bind (variable rt data key) (\<lambda>r.
          bind (variables rt data rest) (\<lambda>out. Inr (r @ out))))"
  by pat_completeness auto
termination
  by (relation "measure (\<lambda>(rt, data, s). length s)") (auto dest: match_var_shorter)

function render :: "runtime \<Rightarrow> string \<Rightarrow> jsval \<Rightarrow> error + string"
  and sections :: "runtime \<Rightarrow> jsval \<Rightarrow> string \<Rightarrow> error + string"
  and expand_section :: "runtime \<Rightarrow> jsval \<Rightarrow> string \<Rightarrow> string \<Rightarrow> error + string"
  and items :: "runtime \<Rightarrow> string \<Rightarrow> jsval list \<Rightarrow> error + string list"
where
  "render rt template data = bind (sections rt data template) (variables rt data)"
| "sections rt data [] = Inr []"
| "sections rt data (c # cs) =
     (case match_section (c # cs) of
        None \<Rightarrow> bind (sections rt data cs) (\<lambda>out. Inr (c # out))
      | Some (key, content, rest) \<Rightarrow>
          bind (expand_section rt data key content) (\<lambda>r.
          bind (sections rt data rest) (\<lambda>out. Inr (r @ out))))"
| "expand_section rt data key content =
     bind (getNestedValue rt data key) (\<lambda>value.
       case value of
         JArr elems \<Rightarrow> bind (items rt content elems) (\<lambda>rs. Inr (join [CHR 0x0A] rs))
       | _ \<Rightarrow> if truthy value then render rt content value else Inr [])"
| "items rt content [] = Inr []"
| "items rt content (item # rest) =
     bind (case item of
             JStr s \<Rightarrow> Inr (replace_self s [] content)
           | JNum n \<Rightarrow> Inr (replace_self (num_text rt n) [] content)
           | _ \<Rightarrow> render rt content item) (\<lambda>r.
     bind (items rt content rest) (\<lambda>rs. Inr (r # rs)))"
  by pat_completeness auto
termination
  apply (relation "inv_image (less_than <*lex*> less_than <*lex*> less_than)
     (\<lambda>x. case x of
        Inl (Inl (rt, template, data)) \<Rightarrow> (length template, 1::nat, 0::nat)
      | Inl (Inr (rt, data, s)) \<Rightarrow> (length s, 0, 0)
      | Inr (Inl (rt, data, key, content)) \<Rightarrow> (length content, 3, 0)
      | Inr (Inr (rt, content, elems)) \<Rightarrow> (length content, 2, length elems))")
  apply (auto dest: match_section_shorter)
  done


text \<open>
  A runtime to state closed examples on. Its prototypes add no property to the own
  properties modelled above, a built-in object prints as its name, and a large number as
  \<^verbatim>\<open>1e+21\<close>, which is right for 10^21 only; the examples stated on it read no property
  that a prototype of strings, numbers, booleans or arrays has, and print no built-in
  object and no large number.
\<close>

definition plain_runtime :: runtime where
  "plain_runtime =
     \<lparr>protoGet = (\<lambda>v key. Inr JUndefined), builtinText = (\<lambda>name. Inr name),
      largeNumberText = (\<lambda>n. ''1e+21'')\<rparr>"

subsection \<open>Well-formed keys and blocks\<close>

text \<open>
  A key as a template author writes it: not empty, without white space and without a
  closing brace. For such a key the lazy \<^verbatim>\<open>(\S+?)\<close> stops exactly at the end of the key.
  A block is \<open>open_tag k @ body @ close_tag k\<close> where the closing tag does not occur in
  the body (\<open>\<not> sublist (close_tag k) body\<close>), so that the lazy body ends at this closing
  tag.
\<close>

definition wf_key :: "string \<Rightarrow> bool" where
  "wf_key key \<longleftrightarrow> key \<noteq> [] \<and> (\<forall>c\<in>set key. \<not> is_space c \<and> c \<noteq> CHR ''}'')"

text \<open>A mapping of the data model is an object.\<close>

fun is_mapping :: "jsval \<Rightarrow> bool" where
  "is_mapping (JObj members) = True"
| "is_mapping v = False"

text \<open>A text has a placeholder when \<^verbatim>\<open>/\{\{(\S+?)\}\}/\<close> matches somewhere in it.\<close>

fun has_placeholder :: "string \<Rightarrow> bool" where
  "has_placeholder [] = False"
| "has_placeholder (c # cs) = (match_var (c # cs) \<noteq> None \<or> has_placeholder cs)"

text \<open>
  A key of a variable reference: a well-formed key without an opening brace that does not
  start like a section tag (\<^verbatim>\<open>#\<close>, \<^verbatim>\<open>/\<close>).
\<close>

definition wf_var :: "string \<Rightarrow> bool" where
  "wf_var key \<longleftrightarrow>
     wf_key key \<and> CHR ''{'' \<notin> set key \<and> hd key \<noteq> CHR ''#'' \<and> hd key \<noteq> CHR ''/''"

text \<open>The primitives of the data model: strings, numbers and booleans.\<close>

fun is_primitive :: "jsval \<Rightarrow> bool" where
  "is_primitive (JStr s) = True"
| "is_primitive (JNum n) = True"
| "is_primitive (JBool b) = True"
| "is_primitive v = False"

text \<open>
  The replacement of the self-reference as the specification words it, for comparison
  with \<open>replace_self\<close>: every \<^verbatim>\<open>{{.}}\<close> of the body becomes the text of the element,
  taken literally.
\<close>

fun literal_self :: "string \<Rightarrow> string \<Rightarrow> string" where
  "literal_self text [] = []"
| "literal_self text (c # cs) =
     (if prefix ''{{.}}'' (c # cs) then text @ literal_self text (drop 4 cs)
      else c # literal_self text cs)"

fun primitive_text :: "runtime \<Rightarrow> jsval \<Rightarrow> string" where
  "primitive_text rt (JStr s) = s"
| "primitive_text rt (JNum n) = num_text rt n"
| "primitive_text rt v = []"

section \<open>Lemmas on the scans\<close>

declare render.simps [simp del] expand_section.simps [simp del]

lemma bind_Inr [simp]: "bind (Inr v) f = f v"
  by (simp add: bind_def)

lemma bind_Inl [simp]: "bind (Inl e) f = Inl e"
  by (simp add: bind_def)

lemma takeWhile_close_tag:
  assumes "CHR ''}'' \<notin> set k"
  shows "takeWhile (\<lambda>c. c \<noteq> CHR ''}'') (close_tag k @ y) = ''{{/'' @ k"
    and "dropWhile (\<lambda>c. c \<noteq> CHR ''}'') (close_tag k @ y) = ''}}'' @ y"
proof -
  have split: "close_tag k @ y = (''{{/'' @ k) @ (''}}'' @ y)"
    by (simp add: close_tag_def)
  have all: "\<And>x. x \<in> set (''{{/'' @ k) \<Longrightarrow> x \<noteq> CHR ''}''"
    using assms by auto
  show "takeWhile (\<lambda>c. c \<noteq> CHR ''}'') (close_tag k @ y) = ''{{/'' @ k"
    unfolding split using all by (subst takeWhile_append2) auto
  show "dropWhile (\<lambda>c. c \<noteq> CHR ''}'') (close_tag k @ y) = ''}}'' @ y"
    unfolding split using all by (subst dropWhile_append2) auto
qed

lemma close_tag_no_straddle:
  assumes k: "CHR ''}'' \<notin> set k" and u: "u \<noteq> []" and np: "\<not> prefix (close_tag k) u"
  shows "\<not> prefix (close_tag k) (u @ close_tag k @ rest)"
proof
  let ?P = "\<lambda>c. c \<noteq> CHR ''}''"
  assume "prefix (close_tag k) (u @ close_tag k @ rest)"
  then obtain y where eq: "u @ close_tag k @ rest = close_tag k @ y"
    by (auto simp: prefix_def)
  show False
  proof (cases "\<forall>c\<in>set u. ?P c")
    case True
    then have "takeWhile ?P (u @ close_tag k @ rest) = u @ takeWhile ?P (close_tag k @ rest)"
      by (intro takeWhile_append2) auto
    with eq takeWhile_close_tag(1) [OF k] have "u @ ''{{/'' @ k = ''{{/'' @ k"
      by simp
    with u show False by simp
  next
    case False
    then obtain c where c: "c \<in> set u" "\<not> ?P c" by auto
    then have tw: "takeWhile ?P (u @ close_tag k @ rest) = takeWhile ?P u"
      and dw: "dropWhile ?P (u @ close_tag k @ rest) = dropWhile ?P u @ close_tag k @ rest"
      by (auto intro: takeWhile_append1 dropWhile_append1)
    from tw eq takeWhile_close_tag(1) [OF k] have t: "takeWhile ?P u = ''{{/'' @ k" by simp
    from dw eq takeWhile_close_tag(2) [OF k] have d: "dropWhile ?P u @ close_tag k @ rest = ''}}'' @ y"
      by simp
    have ne: "dropWhile ?P u \<noteq> []" using c by (auto simp: dropWhile_eq_Nil_conv)
    have uu: "u = takeWhile ?P u @ dropWhile ?P u" by simp
    show False
    proof (cases "dropWhile ?P u")
      case Nil
      with ne show False by simp
    next
      case (Cons a as)
      show False
      proof (cases as)
        case Nil
        with Cons d show False by (simp add: close_tag_def)
      next
        case (Cons b bs)
        with \<open>dropWhile ?P u = a # as\<close> d have "dropWhile ?P u = ''}}'' @ bs" by simp
        with t uu have "u = close_tag k @ bs" by (simp add: close_tag_def)
        with np show False by simp
      qed
    qed
  qed
qed

lemma find_close_unfold:
  "s \<noteq> [] \<Longrightarrow> find_close tag s =
     (if prefix tag s then Some ([], drop (length tag) s)
      else map_option (\<lambda>(body, rest). (hd s # body, rest)) (find_close tag (tl s)))"
  by (cases s) simp_all

lemma find_close_block:
  assumes k: "CHR ''}'' \<notin> set k"
  shows "\<not> sublist (close_tag k) body \<Longrightarrow>
    find_close (close_tag k) (body @ close_tag k @ rest) = Some (body, rest)"
proof (induction body)
  case Nil
  have "close_tag k @ rest \<noteq> []" by (simp add: close_tag_def)
  from find_close_unfold [OF this] show ?case by simp
next
  case (Cons c b)
  from Cons.prems have np: "\<not> prefix (close_tag k) (c # b)" and ns: "\<not> sublist (close_tag k) b"
    by (simp_all add: sublist_Cons_right)
  from close_tag_no_straddle [OF k _ np, of rest]
  have "\<not> prefix (close_tag k) (c # b @ close_tag k @ rest)" by simp
  with Cons.IH [OF ns] show ?case by simp
qed

lemma section_key_block:
  "k2 \<noteq> [] \<Longrightarrow> \<forall>c\<in>set k2. \<not> is_space c \<and> c \<noteq> CHR ''}'' \<Longrightarrow>
   find_close (close_tag (key @ k2)) s = Some (body, rest) \<Longrightarrow>
   section_key key (k2 @ ''}}'' @ s) = Some (key @ k2, body, rest)"
proof (induction k2 arbitrary: key)
  case Nil
  then show ?case by simp
next
  case (Cons c k2)
  show ?case
  proof (cases k2)
    case Nil
    with Cons.prems show ?thesis by simp
  next
    case (Cons d k3)
    with Cons.prems have "\<not> prefix ''}}'' (k2 @ ''}}'' @ s)" by auto
    moreover from Cons Cons.prems Cons.IH [of "key @ [c]"]
    have "section_key (key @ [c]) (k2 @ ''}}'' @ s) = Some (key @ c # k2, body, rest)"
      by simp
    ultimately show ?thesis using Cons.prems by simp
  qed
qed

lemma match_section_block:
  assumes "wf_key k" "\<not> sublist (close_tag k) body"
  shows "match_section (open_tag k @ body @ close_tag k @ rest) = Some (k, body, rest)"
proof -
  from assms(1) have k: "CHR ''}'' \<notin> set k" by (auto simp: wf_key_def)
  from find_close_block [OF k assms(2)]
  have "find_close (close_tag ([] @ k)) (body @ close_tag k @ rest) = Some (body, rest)" by simp
  from section_key_block [OF _ _ this] assms(1)
  have "section_key [] (k @ ''}}'' @ body @ close_tag k @ rest) = Some (k, body, rest)"
    by (simp add: wf_key_def)
  then show ?thesis by (simp add: match_section_def open_tag_def)
qed

lemma sections_block:
  assumes "wf_key k" "\<not> sublist (close_tag k) body"
  shows "sections rt data (open_tag k @ body @ close_tag k @ rest) =
    bind (expand_section rt data k body) (\<lambda>r.
    bind (sections rt data rest) (\<lambda>out. Inr (r @ out)))"
proof -
  obtain c cs where s: "open_tag k @ body @ close_tag k @ rest = c # cs"
    by (simp add: open_tag_def)
  from match_section_block [OF assms, of rest] s
  have "match_section (c # cs) = Some (k, body, rest)" by simp
  then have "sections rt data (c # cs) = bind (expand_section rt data k body) (\<lambda>r.
    bind (sections rt data rest) (\<lambda>out. Inr (r @ out)))" by simp
  with s show ?thesis by simp
qed

lemma var_key_tag:
  "k2 \<noteq> [] \<Longrightarrow> \<forall>c\<in>set k2. \<not> is_space c \<and> c \<noteq> CHR ''}'' \<Longrightarrow>
   var_key key (k2 @ ''}}'' @ rest) = Some (key @ k2, rest)"
proof (induction k2 arbitrary: key)
  case Nil
  then show ?case by simp
next
  case (Cons c k2)
  show ?case
  proof (cases k2)
    case Nil
    with Cons.prems show ?thesis by simp
  next
    case (Cons d k3)
    with Cons.prems have "\<not> prefix ''}}'' (k2 @ ''}}'' @ rest)" by auto
    moreover from Cons Cons.prems Cons.IH [of "key @ [c]"]
    have "var_key (key @ [c]) (k2 @ ''}}'' @ rest) = Some (key @ c # k2, rest)"
      by simp
    ultimately show ?thesis using Cons.prems by simp
  qed
qed

lemma match_var_tag: "wf_key k \<Longrightarrow> match_var (var_tag k @ rest) = Some (k, rest)"
  using var_key_tag [of k "[]" rest] by (simp add: wf_key_def match_var_def var_tag_def)

lemma variables_tag:
  assumes "wf_key k"
  shows "variables rt data (var_tag k @ rest) =
    bind (variable rt data k) (\<lambda>r. bind (variables rt data rest) (\<lambda>out. Inr (r @ out)))"
proof -
  obtain c cs where s: "var_tag k @ rest = c # cs" by (simp add: var_tag_def)
  from match_var_tag [OF assms, of rest] s have "match_var (c # cs) = Some (k, rest)" by simp
  then have "variables rt data (c # cs) =
    bind (variable rt data k) (\<lambda>r. bind (variables rt data rest) (\<lambda>out. Inr (r @ out)))" by simp
  with s show ?thesis by simp
qed


subsection \<open>Lookup\<close>

lemma split_dot_not_Nil [simp]: "split_dot s \<noteq> []"
  by (induction s) (auto split: list.splits)

lemma split_dot_segment: "CHR ''.'' \<notin> set k \<Longrightarrow> split_dot k = [k]"
  by (induction k) (auto split: list.splits)

lemma split_dot_append:
  "CHR ''.'' \<notin> set k \<Longrightarrow> split_dot (k @ CHR ''.'' # rest) = k # split_dot rest"
  by (induction k) (auto split: list.splits)

lemma step_Inl [simp]: "step rt (Inl e) key = Inl e"
  by (simp add: step_def)

lemma step_falsy [simp]: "\<not> truthy v \<Longrightarrow> step rt (Inr v) key = Inr JUndefined"
  by (simp add: step_def)

lemma step_truthy [simp]: "truthy v \<Longrightarrow> step rt (Inr v) key = getProp rt v key"
  by (cases "getProp rt v key") (simp_all add: step_def)

lemma foldl_step_Inl [simp]: "foldl (step rt) (Inl e) segs = Inl e"
  by (induction segs) simp_all

lemma foldl_step_undefined [simp]: "foldl (step rt) (Inr JUndefined) segs = Inr JUndefined"
  by (induction segs) simp_all

lemma getNestedValue_falsy: "\<not> truthy obj \<Longrightarrow> getNestedValue rt obj path = Inr JUndefined"
  by (cases "split_dot path") (simp_all add: getNestedValue_def)

lemma getNestedValue_segment:
  "CHR ''.'' \<notin> set k \<Longrightarrow>
   getNestedValue rt obj k = (if truthy obj then getProp rt obj k else Inr JUndefined)"
  by (simp add: getNestedValue_def split_dot_segment)

lemma getNestedValue_descend:
  "CHR ''.'' \<notin> set k \<Longrightarrow>
   getNestedValue rt obj (k @ ''.'' @ rest) =
     (if truthy obj then bind (getProp rt obj k) (\<lambda>v. getNestedValue rt v rest)
      else Inr JUndefined)"
  by (cases "getProp rt obj k") (simp_all add: getNestedValue_def split_dot_append)

subsection \<open>Texts without placeholders\<close>

lemma section_key_facts:
  "section_key key s = Some (k, body, rest) \<Longrightarrow>
   \<exists>k2. k = key @ k2 \<and> k2 \<noteq> [] \<and> (\<forall>c\<in>set k2. \<not> is_space c)"
proof (induction s arbitrary: key)
  case Nil
  then show ?case by simp
next
  case (Cons c cs)
  from Cons.prems have ns: "\<not> is_space c" by (auto split: if_splits)
  show ?case
  proof (cases "if prefix ''}}'' cs then find_close (close_tag (key @ [c])) (drop 2 cs) else None")
    case None
    with Cons.prems ns have "section_key (key @ [c]) cs = Some (k, body, rest)" by simp
    from Cons.IH [OF this] obtain k2 where "k = (key @ [c]) @ k2" "\<forall>c\<in>set k2. \<not> is_space c"
      by blast
    with ns show ?thesis by (intro exI [of _ "c # k2"]) simp
  next
    case (Some p)
    with Cons.prems ns have "k = key @ [c]" by (auto split: prod.splits)
    with ns show ?thesis by (intro exI [of _ "[c]"]) simp
  qed
qed

lemma var_key_facts:
  "var_key key s = Some (k, rest) \<Longrightarrow>
   \<exists>k2. k = key @ k2 \<and> k2 \<noteq> [] \<and> (\<forall>c\<in>set k2. \<not> is_space c)"
proof (induction s arbitrary: key)
  case Nil
  then show ?case by simp
next
  case (Cons c cs)
  from Cons.prems have ns: "\<not> is_space c" by (auto split: if_splits)
  show ?case
  proof (cases "prefix ''}}'' cs")
    case True
    with Cons.prems ns have "k = key @ [c]" by simp
    with ns show ?thesis by (intro exI [of _ "[c]"]) simp
  next
    case False
    with Cons.prems ns have "var_key (key @ [c]) cs = Some (k, rest)" by simp
    from Cons.IH [OF this] obtain k2 where "k = (key @ [c]) @ k2" "\<forall>c\<in>set k2. \<not> is_space c"
      by blast
    with ns show ?thesis by (intro exI [of _ "c # k2"]) simp
  qed
qed

lemma var_key_total:
  "k2 \<noteq> [] \<Longrightarrow> \<forall>c\<in>set k2. \<not> is_space c \<Longrightarrow> var_key key (k2 @ ''}}'' @ rest) \<noteq> None"
proof (induction k2 arbitrary: key)
  case Nil
  then show ?case by simp
next
  case (Cons c k2)
  then show ?case by (cases k2) auto
qed

lemma match_var_total:
  "key \<noteq> [] \<Longrightarrow> \<forall>c\<in>set key. \<not> is_space c \<Longrightarrow> match_var (var_tag key @ rest) \<noteq> None"
  using var_key_total [of key "[]" rest] by (simp add: match_var_def var_tag_def)

lemma match_section_is_placeholder: "match_section s = Some x \<Longrightarrow> match_var s \<noteq> None"
proof -
  assume a: "match_section s = Some x"
  obtain k body rest where x: "x = (k, body, rest)" by (cases x)
  from a x have sk: "section_key [] (drop 3 s) = Some (k, body, rest)"
    by (auto simp: match_section_def split: if_splits)
  from section_key_facts [OF sk] have k: "k \<noteq> []" "\<forall>c\<in>set k. \<not> is_space c" by auto
  have hash: "\<not> is_space CHR ''#''" by (simp add: is_space_def)
  from match_section_Some [OF a [unfolded x]]
  have "s = var_tag (CHR ''#'' # k) @ body @ close_tag k @ rest"
    by (simp add: open_tag_def var_tag_def)
  moreover from k hash have "match_var (var_tag (CHR ''#'' # k) @ body @ close_tag k @ rest) \<noteq> None"
    by (intro match_var_total) auto
  ultimately show ?thesis by simp
qed

lemma sections_plain: "\<not> has_placeholder s \<Longrightarrow> sections rt data s = Inr s"
proof (induction s)
  case Nil
  then show ?case by simp
next
  case (Cons c cs)
  from Cons.prems have nv: "match_var (c # cs) = None" and np: "\<not> has_placeholder cs"
    by (cases "match_var (c # cs)"; simp)+
  from nv match_section_is_placeholder [of "c # cs"]
  have "match_section (c # cs) = None" by (cases "match_section (c # cs)") auto
  with Cons.IH [OF np] show ?case by simp
qed

lemma variables_plain: "\<not> has_placeholder s \<Longrightarrow> variables rt data s = Inr s"
proof (induction s)
  case Nil
  then show ?case by simp
next
  case (Cons c cs)
  from Cons.prems have nv: "match_var (c # cs) = None" and np: "\<not> has_placeholder cs"
    by (cases "match_var (c # cs)"; simp)+
  with Cons.IH [OF np] show ?case by simp
qed

lemma has_placeholder_iff:
  "has_placeholder s \<longleftrightarrow>
   (\<exists>pre key rest. s = pre @ var_tag key @ rest \<and> key \<noteq> [] \<and> (\<forall>c\<in>set key. \<not> is_space c))"
proof
  show "has_placeholder s \<Longrightarrow>
    \<exists>pre key rest. s = pre @ var_tag key @ rest \<and> key \<noteq> [] \<and> (\<forall>c\<in>set key. \<not> is_space c)"
  proof (induction s)
    case Nil
    then show ?case by simp
  next
    case (Cons c cs)
    show ?case
    proof (cases "match_var (c # cs)")
      case None
      with Cons obtain pre key rest where
        "cs = pre @ var_tag key @ rest \<and> key \<noteq> [] \<and> (\<forall>c\<in>set key. \<not> is_space c)" by auto
      then have "c # cs = (c # pre) @ var_tag key @ rest \<and> key \<noteq> [] \<and> (\<forall>c\<in>set key. \<not> is_space c)"
        by simp
      then show ?thesis by blast
    next
      case (Some p)
      obtain k rest where p: "p = (k, rest)" by (cases p)
      from Some p have vk: "var_key [] (drop 2 (c # cs)) = Some (k, rest)"
        by (auto simp: match_var_def split: if_splits)
      from var_key_facts [OF vk] have "k \<noteq> []" "\<forall>c\<in>set k. \<not> is_space c" by auto
      with match_var_Some [OF Some [unfolded p]]
      have "c # cs = [] @ var_tag k @ rest \<and> k \<noteq> [] \<and> (\<forall>c\<in>set k. \<not> is_space c)" by simp
      then show ?thesis by blast
    qed
  qed
next
  assume "\<exists>pre key rest. s = pre @ var_tag key @ rest \<and> key \<noteq> [] \<and> (\<forall>c\<in>set key. \<not> is_space c)"
  then obtain pre key rest where
    s: "s = pre @ var_tag key @ rest" and k: "key \<noteq> []" "\<forall>c\<in>set key. \<not> is_space c" by blast
  have "has_placeholder (pre @ var_tag key @ rest)"
  proof (induction pre)
    case Nil
    obtain c cs where e: "var_tag key @ rest = c # cs" by (simp add: var_tag_def)
    with match_var_total [OF k, of rest] show ?case by simp
  next
    case (Cons a pre)
    then show ?case by simp
  qed
  with s show "has_placeholder s" by simp
qed


subsection \<open>Blocks and replacement\<close>

lemma replace_self_matched:
  "r = ''$&'' \<Longrightarrow> replace_self r pre body = body"
proof (induction r pre body rule: replace_self.induct)
  case (1 replacement preceding)
  then show ?case by simp
next
  case (2 replacement preceding c cs)
  show ?case
  proof (cases "prefix ''{{.}}'' (c # cs)")
    case True
    have "replace_self replacement preceding (c # cs) =
      substitution ''{{.}}'' preceding (drop 4 cs) replacement
        @ replace_self replacement (preceding @ ''{{.}}'') (drop 4 cs)"
      using True by (simp only: replace_self.simps if_True)
    also have "\<dots> = ''{{.}}'' @ drop 4 cs"
      using "2.IH"(1) [OF True "2.prems"] "2.prems" by simp
    also have "\<dots> = c # cs"
      using True by (auto simp: prefix_def)
    finally show ?thesis .
  next
    case False
    have "replace_self replacement preceding (c # cs) =
      c # replace_self replacement (preceding @ [c]) cs"
      using False by (simp only: replace_self.simps if_False)
    with "2.IH"(2) [OF False "2.prems"] show ?thesis by simp
  qed
qed

lemma items_mappings:
  "list_all2 (\<lambda>e r. render rt body e = Inr r) elems rs \<Longrightarrow> \<forall>e\<in>set elems. is_mapping e \<Longrightarrow>
   items rt body elems = Inr rs"
proof (induction elems rs rule: list_all2_induct)
  case Nil
  then show ?case by simp
next
  case (Cons e elems r rs)
  then show ?case by (cases e) simp_all
qed

lemma sections_skip:
  "\<not> sublist ''{{#'' pre \<Longrightarrow>
   sections rt data (pre @ CHR ''{'' # CHR ''{'' # s) =
     bind (sections rt data (CHR ''{'' # CHR ''{'' # s)) (\<lambda>out. Inr (pre @ out))"
proof (induction pre)
  case Nil
  show ?case by (cases "sections rt data (CHR ''{'' # CHR ''{'' # s)") simp_all
next
  case (Cons c pre)
  from Cons.prems have np: "\<not> prefix ''{{#'' (c # pre)" and ns: "\<not> sublist ''{{#'' pre"
    by (simp_all add: sublist_Cons_right)
  from np have "\<not> prefix ''{{#'' (c # pre @ CHR ''{'' # CHR ''{'' # s)"
    by (cases pre; cases "tl pre") auto
  then have "match_section (c # pre @ CHR ''{'' # CHR ''{'' # s) = None"
    by (simp only: match_section_def if_False)
  with Cons.IH [OF ns] show ?case
    by (cases "sections rt data (CHR ''{'' # CHR ''{'' # s)") simp_all
qed

lemma render_block:
  assumes "\<not> sublist ''{{#'' pre" and "wf_key k" and "\<not> sublist (close_tag k) body"
    and "expand_section rt data k body = Inr r" and "sections rt data rest = Inr out"
  shows "sections rt data (pre @ open_tag k @ body @ close_tag k @ rest) = Inr (pre @ r @ out)
    \<and> render rt (pre @ open_tag k @ body @ close_tag k @ rest) data
        = variables rt data (pre @ r @ out)"
proof -
  have o: "open_tag k @ body @ close_tag k @ rest =
    CHR ''{'' # CHR ''{'' # (CHR ''#'' # k @ ''}}'' @ body @ close_tag k @ rest)"
    by (simp add: open_tag_def)
  from assms(4,5) have "sections rt data (open_tag k @ body @ close_tag k @ rest) = Inr (r @ out)"
    by (simp add: sections_block [OF assms(2,3)])
  with sections_skip [OF assms(1), of rt data "CHR ''#'' # k @ ''}}'' @ body @ close_tag k @ rest"]
  have "sections rt data (pre @ open_tag k @ body @ close_tag k @ rest) = Inr (pre @ r @ out)"
    unfolding o by simp
  then show ?thesis by (simp add: render.simps)
qed

lemma substitution_plain:
  "CHR ''$'' \<notin> set r \<Longrightarrow> substitution matched preceding following r = r"
  by (induction matched preceding following r rule: substitution.induct) auto

lemma replace_self_plain:
  "CHR ''$'' \<notin> set r \<Longrightarrow> replace_self r pre body = literal_self r body"
proof (induction r pre body rule: replace_self.induct)
  case (1 replacement preceding)
  then show ?case by simp
next
  case (2 replacement preceding c cs)
  show ?case
  proof (cases "prefix ''{{.}}'' (c # cs)")
    case True
    have "replace_self replacement preceding (c # cs) =
      substitution ''{{.}}'' preceding (drop 4 cs) replacement
        @ replace_self replacement (preceding @ ''{{.}}'') (drop 4 cs)"
      using True by (simp only: replace_self.simps if_True)
    also have "\<dots> = replacement @ literal_self replacement (drop 4 cs)"
      using "2.IH"(1) [OF True "2.prems"] "2.prems" by (simp add: substitution_plain)
    also have "\<dots> = literal_self replacement (c # cs)"
      using True by (simp only: literal_self.simps if_True)
    finally show ?thesis .
  next
    case False
    have "replace_self replacement preceding (c # cs) =
      c # replace_self replacement (preceding @ [c]) cs"
      using False by (simp only: replace_self.simps if_False)
    also have "\<dots> = c # literal_self replacement cs"
      using "2.IH"(2) [OF False "2.prems"] by simp
    also have "\<dots> = literal_self replacement (c # cs)"
      using False by (simp only: literal_self.simps if_False)
    finally show ?thesis .
  qed
qed

lemma replace_self_dollar:
  "r = ''$$'' \<Longrightarrow> replace_self r pre body = literal_self ''$'' body"
proof (induction r pre body rule: replace_self.induct)
  case (1 replacement preceding)
  then show ?case by simp
next
  case (2 replacement preceding c cs)
  show ?case
  proof (cases "prefix ''{{.}}'' (c # cs)")
    case True
    have "replace_self replacement preceding (c # cs) =
      substitution ''{{.}}'' preceding (drop 4 cs) replacement
        @ replace_self replacement (preceding @ ''{{.}}'') (drop 4 cs)"
      using True by (simp only: replace_self.simps if_True)
    also have "\<dots> = ''$'' @ literal_self ''$'' (drop 4 cs)"
      using "2.IH"(1) [OF True "2.prems"] "2.prems" by simp
    also have "\<dots> = literal_self ''$'' (c # cs)"
      using True by (simp only: literal_self.simps if_True)
    finally show ?thesis .
  next
    case False
    have "replace_self replacement preceding (c # cs) =
      c # replace_self replacement (preceding @ [c]) cs"
      using False by (simp only: replace_self.simps if_False)
    also have "\<dots> = c # literal_self ''$'' cs"
      using "2.IH"(2) [OF False "2.prems"] by simp
    also have "\<dots> = literal_self ''$'' (c # cs)"
      using False by (simp only: literal_self.simps if_False)
    finally show ?thesis .
  qed
qed

lemma digits_no_dollar: "CHR ''$'' \<notin> set (digits n)"
proof (induction n rule: digits.induct)
  case (1 n)
  have d: "\<And>m. m < 10 \<Longrightarrow> digit_chars ! m \<noteq> CHR ''$''"
  proof -
    fix m :: nat
    assume "m < 10"
    moreover have "length digit_chars = 10" by (simp add: digit_chars_def)
    ultimately have "digit_chars ! m \<in> set digit_chars" by (intro nth_mem) simp
    moreover have "CHR ''$'' \<notin> set digit_chars" by (simp add: digit_chars_def)
    ultimately show "digit_chars ! m \<noteq> CHR ''$''" by metis
  qed
  show ?case
  proof (cases "n < 10")
    case True
    with d [of n] show ?thesis by (simp add: digits.simps [of n])
  next
    case False
    with 1 d [of "n mod 10"] show ?thesis by (simp add: digits.simps [of n])
  qed
qed

lemma num_text_no_dollar:
  "\<bar>n\<bar> < 1000000000000000000000 \<Longrightarrow> CHR ''$'' \<notin> set (num_text rt n)"
  by (simp add: num_text_def digits_no_dollar)

text \<open>
  Without a dollar sign in the text of the elements, a section over strings and numbers is
  what the specification says: one literal copy of the body per element. The text of a
  number below 10^21 in magnitude has no dollar sign (\<open>num_text_no_dollar\<close>).
\<close>

lemma items_primitives_without_dollar:
  "\<forall>e\<in>set elems. ((\<exists>s. e = JStr s) \<or> (\<exists>n. e = JNum n)) \<and> CHR ''$'' \<notin> set (primitive_text rt e) \<Longrightarrow>
   items rt body elems = Inr (map (\<lambda>e. literal_self (primitive_text rt e) body) elems)"
proof (induction elems)
  case Nil
  then show ?case by simp
next
  case (Cons e elems)
  then show ?case by (auto simp: replace_self_plain)
qed

lemma primitive_array_section_without_dollar:
  assumes "\<not> sublist ''{{#'' pre" and "wf_key k" and "\<not> sublist (close_tag k) body"
    and "getNestedValue rt data k = Inr (JArr elems)"
    and "\<forall>e\<in>set elems. ((\<exists>s. e = JStr s) \<or> (\<exists>n. e = JNum n)) \<and> CHR ''$'' \<notin> set (primitive_text rt e)"
    and "sections rt data rest = Inr out"
  shows "sections rt data (pre @ open_tag k @ body @ close_tag k @ rest)
    = Inr (pre @ join ''\<newline>'' (map (\<lambda>e. literal_self (primitive_text rt e) body) elems) @ out)"
proof -
  from assms(4) items_primitives_without_dollar [OF assms(5)]
  have "expand_section rt data k body
    = Inr (join ''\<newline>'' (map (\<lambda>e. literal_self (primitive_text rt e) body) elems))"
    by (simp add: expand_section.simps)
  from render_block [OF assms(1,2,3) this assms(6)] show ?thesis by simp
qed

lemma match_section_no_brace: "c \<noteq> CHR ''{'' \<Longrightarrow> match_section (c # cs) = None"
  by (simp add: match_section_def)

lemma sections_no_brace:
  "CHR ''{'' \<notin> set pre \<Longrightarrow>
   sections rt data (pre @ s) = bind (sections rt data s) (\<lambda>out. Inr (pre @ out))"
proof (induction pre)
  case Nil
  show ?case by (cases "sections rt data s") simp_all
next
  case (Cons c pre)
  then have "match_section (c # pre @ s) = None" by (intro match_section_no_brace) auto
  with Cons show ?case by (cases "sections rt data s") simp_all
qed

lemma sections_var_tag:
  assumes "wf_var key"
  shows "sections rt data (var_tag key @ rest) =
    bind (sections rt data rest) (\<lambda>out. Inr (var_tag key @ out))"
proof -
  from assms obtain c cs where key: "key = c # cs" and c: "c \<noteq> CHR ''{''" "c \<noteq> CHR ''#''"
    and nb: "CHR ''{'' \<notin> set (key @ ''}}'')"
    by (cases key) (auto simp: wf_var_def wf_key_def)
  have 0: "match_section (CHR ''{'' # CHR ''{'' # key @ ''}}'' @ rest) = None"
    using c by (simp add: match_section_def key)
  have 1: "match_section (CHR ''{'' # key @ ''}}'' @ rest) = None"
    using c by (simp add: match_section_def key)
  from sections_no_brace [OF nb, of rt data rest]
  have 2: "sections rt data (key @ ''}}'' @ rest) =
    bind (sections rt data rest) (\<lambda>out. Inr (key @ ''}}'' @ out))" by simp
  have "sections rt data (CHR ''{'' # CHR ''{'' # key @ ''}}'' @ rest) =
    bind (sections rt data rest) (\<lambda>out. Inr (CHR ''{'' # CHR ''{'' # key @ ''}}'' @ out))"
    by (cases "sections rt data rest") (simp_all add: 0 1 2 del: append.simps)
  then show ?thesis by (simp add: var_tag_def)
qed

lemma wf_var_key: "wf_var key \<Longrightarrow> wf_key key"
  by (simp add: wf_var_def)

lemma match_var_no_brace: "c \<noteq> CHR ''{'' \<Longrightarrow> match_var (c # cs) = None"
  by (simp add: match_var_def)

lemma variables_no_brace:
  "CHR ''{'' \<notin> set pre \<Longrightarrow>
   variables rt data (pre @ s) = bind (variables rt data s) (\<lambda>out. Inr (pre @ out))"
proof (induction pre)
  case Nil
  show ?case by (cases "variables rt data s") simp_all
next
  case (Cons c pre)
  then have "match_var (c # pre @ s) = None" by (intro match_var_no_brace) auto
  with Cons show ?case by (cases "variables rt data s") simp_all
qed

lemma render_var_tag:
  assumes "CHR ''{'' \<notin> set pre" and "wf_var key" and "variable rt data key = Inr text"
    and "render rt rest data = Inr out"
  shows "render rt (pre @ var_tag key @ rest) data = Inr (pre @ text @ out)"
proof -
  from assms(4) obtain t where t: "sections rt data rest = Inr t" "variables rt data t = Inr out"
    by (cases "sections rt data rest") (simp_all add: render.simps)
  from t(1) have "sections rt data (pre @ var_tag key @ rest) = Inr (pre @ var_tag key @ t)"
    by (simp add: sections_no_brace [OF assms(1)] sections_var_tag [OF assms(2)])
  then have "render rt (pre @ var_tag key @ rest) data = variables rt data (pre @ var_tag key @ t)"
    by (simp add: render.simps)
  also have "\<dots> = Inr (pre @ text @ out)"
    using assms(3) t(2)
    by (simp add: variables_no_brace [OF assms(1)] variables_tag [OF wf_var_key [OF assms(2)]])
  finally show ?thesis .
qed

lemma render_unresolved_var:
  assumes "wf_var key" and "getNestedValue rt data key = Inr JUndefined"
  shows "render rt (var_tag key) data = Inr (var_tag key)"
proof -
  have "CHR ''{'' \<notin> set ([] :: string)" by simp
  moreover have "render rt [] data = Inr []" by (simp add: render.simps)
  ultimately have "render rt ([] @ var_tag key @ []) data = Inr ([] @ var_tag key @ [])"
    using assms by (intro render_var_tag) (simp_all add: variable_def)
  then show ?thesis by simp
qed


lemma close_tag_not_in_var_tag:
  assumes "wf_var v"
  shows "\<not> sublist (close_tag k) (var_tag v)"
proof
  assume "sublist (close_tag k) (var_tag v)"
  then obtain ps ss where e: "var_tag v = ps @ close_tag k @ ss" by (auto simp: sublist_def)
  from assms obtain c cs where v: "v = c # cs" and c: "c \<noteq> CHR ''{''" "c \<noteq> CHR ''/''"
    and nb: "CHR ''{'' \<notin> set cs"
    by (cases v) (auto simp: wf_var_def wf_key_def)
  show False
  proof (cases ps)
    case Nil
    with e v c show False by (simp add: var_tag_def close_tag_def)
  next
    case (Cons p ps')
    show False
    proof (cases ps')
      case Nil
      with Cons e v c show False by (simp add: var_tag_def close_tag_def)
    next
      case (Cons q ps'')
      with \<open>ps = p # ps'\<close> e v have "c # cs @ ''}}'' = ps'' @ close_tag k @ ss"
        by (simp add: var_tag_def)
      then have "CHR ''{'' \<in> set (c # cs @ ''}}'')" by (simp add: close_tag_def)
      with c nb show False by simp
    qed
  qed
qed


subsection \<open>Examples that do not reach the runtime\<close>

text \<open>
  The evaluations below read own properties and \<^verbatim>\<open>Object.prototype\<close> only, so they hold
  whatever the prototypes of strings, numbers, booleans and arrays provide.
\<close>

lemma self_reference_examples:
  "render rt ''{{#a}}{{.}}{{/a}}'' (JObj [(''a'', JArr [JNum 1, JNum 2, JNum 3])])
     = Inr ''1\<newline>2\<newline>3''
   \<and> render rt ''{{#a}}{{.}}{{/a}}'' (JObj [(''a'', JArr [JStr ''$$''])]) = Inr ''$''"
  by code_simp

lemma mapping_array_outer_pass:
  "render rt ''{{x}}'' (JObj []) = Inr ''{{x}}''
   \<and> render rt ''{{x}}'' (JObj [(''x'', JStr ''q'')]) = Inr ''q''
   \<and> render rt ''{{#a}}{{x}}{{/a}}''
        (JObj [(''a'', JArr [JObj [], JObj [(''x'', JStr ''q'')]]), (''x'', JStr ''OUT'')])
       = Inr ''OUT\<newline>q''"
  by code_simp

lemma constructor_section:
  "render rt ''{{#constructor}}X{{/constructor}}'' (JObj []) = Inr ''X''"
  by code_simp

lemma string_length_path:
  "getNestedValue rt (JObj [(''a'', JStr ''deep'')]) ''a.length'' = Inr (JNum 4)
   \<and> render rt ''{{a.length}}'' (JObj [(''a'', JStr ''deep'')]) = Inr ''4''"
  by code_simp

lemma nested_section_in_mapping:
  "render rt ''{{#m}}{{#t}}X{{/t}}{{/m}}''
     (JObj [(''m'', JObj [(''u'', JNum 1)]), (''t'', JStr ''yes'')]) = Inr []
   \<and> render rt ''{{#t}}X{{/t}}''
     (JObj [(''m'', JObj [(''u'', JNum 1)]), (''t'', JStr ''yes'')]) = Inr ''X''"
  by code_simp

lemma string_length_in_section:
  "render rt ''{{#flag}}{{length}}{{/flag}}'' (JObj [(''flag'', JStr ''yes'')]) = Inr ''3''"
  by code_simp

section \<open>The claims\<close>

text \<open>
  The theorems on a block speak of a block \<open>open_tag k @ body @ close_tag k\<close> that
  follows a text \<open>pre\<close> in which no section tag opens, and is followed by any text
  \<open>rest\<close>. The scan reaches every block this way: it goes on after each match.
  The conclusions give the result of the first replacement (\<open>sections\<close>), where the
  block is replaced and \<open>out\<close> is what becomes of \<open>rest\<close>, and the result of
  \<open>render\<close>, where the second replacement (\<open>variables\<close>) has run over all of it.
\<close>

text \<open>
  C1: a section whose key resolves to a sequence of primitives is replaced by one copy of
  the body per element, each \<^verbatim>\<open>{{.}}\<close> replaced by the text of the element, joined by
  newlines. It holds on \<^verbatim>\<open>{a: [1,2,3]}\<close>, which renders \<^verbatim>\<open>1\n2\n3\<close>, and, by
  \<open>primitive_array_section_without_dollar\<close>, whenever no element has a dollar sign.
  It fails on a string element with a dollar pattern: the element \<^verbatim>\<open>$$\<close> renders as
  \<^verbatim>\<open>$\<close>, while the comment in the code says that \<^verbatim>\<open>{{.}}\<close> is replaced with the value.
\<close>

theorem C1_primitive_array_section:
  "render plain_runtime ''{{#a}}{{.}}{{/a}}'' (JObj [(''a'', JArr [JNum 1, JNum 2, JNum 3])])
     = Inr ''1\<newline>2\<newline>3''
   \<and> render plain_runtime ''{{#a}}{{.}}{{/a}}'' (JObj [(''a'', JArr [JStr ''$$''])]) = Inr ''$''"
  using self_reference_examples [of plain_runtime] by simp

text \<open>
  C2, as amended: the first replacement puts, in the place of a section whose key
  resolves to a sequence of mappings, the results of rendering the body with each element
  as the context, joined by newlines. The second replacement of \<open>render\<close> then runs over
  that text as over the rest of the template, in the outer context. Where the text before
  the block and the joined results have no opening brace, the joined results are in the
  output of \<open>render\<close> as they are; the template \<^verbatim>\<open>{{#a}}{{x}}{{/a}}\<close> on
  \<^verbatim>\<open>{a: [{x:"p"},{x:"q"}]}\<close> renders \<^verbatim>\<open>p\nq\<close>.

  As stated (render replaces the block by the joined results) the claim fails: a
  placeholder that the rendering of an element leaves in place is resolved in the outer
  context afterwards. On \<^verbatim>\<open>{a: [{}, {x:"q"}], x: "OUT"}\<close> the elements render to
  \<^verbatim>\<open>{{x}}\<close> and \<^verbatim>\<open>q\<close>, and the output is \<^verbatim>\<open>OUT\nq\<close>.
\<close>

theorem C2_outer_variable_pass_counterexample:
  "render plain_runtime ''{{x}}'' (JObj []) = Inr ''{{x}}''
   \<and> render plain_runtime ''{{x}}'' (JObj [(''x'', JStr ''q'')]) = Inr ''q''
   \<and> render plain_runtime ''{{#a}}{{x}}{{/a}}''
        (JObj [(''a'', JArr [JObj [], JObj [(''x'', JStr ''q'')]]), (''x'', JStr ''OUT'')])
       = Inr ''OUT\<newline>q''"
  by (rule mapping_array_outer_pass)

theorem C2_mapping_array_section:
  assumes "\<not> sublist ''{{#'' pre" and "wf_key k" and "\<not> sublist (close_tag k) body"
    and "getNestedValue rt data k = Inr (JArr elems)"
    and "\<forall>e\<in>set elems. is_mapping e"
    and "list_all2 (\<lambda>e r. render rt body e = Inr r) elems rs"
    and "sections rt data rest = Inr out"
  shows "sections rt data (pre @ open_tag k @ body @ close_tag k @ rest)
           = Inr (pre @ join ''\<newline>'' rs @ out)
    \<and> render rt (pre @ open_tag k @ body @ close_tag k @ rest) data
           = variables rt data (pre @ join ''\<newline>'' rs @ out)
    \<and> (CHR ''{'' \<notin> set pre \<longrightarrow> CHR ''{'' \<notin> set (join ''\<newline>'' rs) \<longrightarrow>
         variables rt data out = Inr final \<longrightarrow>
         render rt (pre @ open_tag k @ body @ close_tag k @ rest) data
           = Inr (pre @ join ''\<newline>'' rs @ final))
    \<and> render rt ''{{#a}}{{x}}{{/a}}''
        (JObj [(''a'', JArr [JObj [(''x'', JStr ''p'')], JObj [(''x'', JStr ''q'')]])])
           = Inr ''p\<newline>q''"
proof -
  from assms(4) items_mappings [OF assms(6,5)]
  have "expand_section rt data k body = Inr (join ''\<newline>'' rs)"
    by (simp add: expand_section.simps)
  from render_block [OF assms(1,2,3) this assms(7)]
  have block: "sections rt data (pre @ open_tag k @ body @ close_tag k @ rest)
           = Inr (pre @ join ''\<newline>'' rs @ out)
    \<and> render rt (pre @ open_tag k @ body @ close_tag k @ rest) data
           = variables rt data (pre @ join ''\<newline>'' rs @ out)" .
  have kept: "render rt (pre @ open_tag k @ body @ close_tag k @ rest) data
           = Inr (pre @ join ''\<newline>'' rs @ final)"
    if "CHR ''{'' \<notin> set pre" "CHR ''{'' \<notin> set (join ''\<newline>'' rs)"
      "variables rt data out = Inr final"
  proof -
    from that(1,2) have "CHR ''{'' \<notin> set (pre @ join ''\<newline>'' rs)" by simp
    from variables_no_brace [OF this, of rt data out] that(3)
    have "variables rt data (pre @ join ''\<newline>'' rs @ out)
      = Inr (pre @ join ''\<newline>'' rs @ final)" by simp
    with block show ?thesis by simp
  qed
  have "render rt ''{{#a}}{{x}}{{/a}}''
        (JObj [(''a'', JArr [JObj [(''x'', JStr ''p'')], JObj [(''x'', JStr ''q'')]])])
           = Inr ''p\<newline>q''"
    by code_simp
  with block kept show ?thesis by blast
qed

theorem C2_mapping_array_section_witness:
  "render plain_runtime (''<ul>'' @ open_tag ''a'' @ ''<{{x}}>'' @ close_tag ''a'' @ '' {{y}}'')
     (JObj [(''a'', JArr [JObj [(''x'', JStr ''p'')], JObj [(''x'', JStr ''q'')]]), (''y'', JNum 7)])
   = Inr ''<ul><p>\<newline><q> 7''"
proof -
  let ?data = "JObj [(''a'', JArr [JObj [(''x'', JStr ''p'')], JObj [(''x'', JStr ''q'')]]), (''y'', JNum 7)]"
  have 0: "\<not> sublist ''{{#'' ''<ul>''" by code_simp
  have 1: "wf_key ''a''" by (simp add: wf_key_def is_space_def)
  have 2: "\<not> sublist (close_tag ''a'') ''<{{x}}>''" by code_simp
  have 3: "getNestedValue plain_runtime ?data ''a''
    = Inr (JArr [JObj [(''x'', JStr ''p'')], JObj [(''x'', JStr ''q'')]])" by code_simp
  have 4: "\<forall>e\<in>set [JObj [(''x'', JStr ''p'')], JObj [(''x'', JStr ''q'')]]. is_mapping e" by simp
  have "render plain_runtime ''<{{x}}>'' (JObj [(''x'', JStr ''p'')]) = Inr ''<p>''"
    "render plain_runtime ''<{{x}}>'' (JObj [(''x'', JStr ''q'')]) = Inr ''<q>''" by code_simp+
  then have 5: "list_all2 (\<lambda>e r. render plain_runtime ''<{{x}}>'' e = Inr r)
    [JObj [(''x'', JStr ''p'')], JObj [(''x'', JStr ''q'')]] [''<p>'', ''<q>'']" by simp
  have 6: "sections plain_runtime ?data '' {{y}}'' = Inr '' {{y}}''" by code_simp
  have 7: "CHR ''{'' \<notin> set ''<ul>''" "CHR ''{'' \<notin> set (join ''\<newline>'' [''<p>'', ''<q>''])"
    by simp_all
  have 8: "variables plain_runtime ?data '' {{y}}'' = Inr '' 7''" by code_simp
  from C2_mapping_array_section [OF 0 1 2 3 4 5 6, where final = "'' 7''"] 7 8
  have "render plain_runtime (''<ul>'' @ open_tag ''a'' @ ''<{{x}}>'' @ close_tag ''a'' @ '' {{y}}'')
    ?data = Inr (''<ul>'' @ join ''\<newline>'' [''<p>'', ''<q>''] @ '' 7'')"
    by blast
  then show ?thesis by simp
qed

text \<open>
  C3, as amended: a section whose key resolves to not found or to a falsy value
  (\<^verbatim>\<open>null\<close>, \<^verbatim>\<open>false\<close>, \<^verbatim>\<open>0\<close>, the empty string) or to an empty sequence is removed
  with its tags and body. A key without dots that an object lacks resolves to not found
  when \<^verbatim>\<open>Object.prototype\<close> has no property of that name, and
  \<^verbatim>\<open>{{#missing}}anything{{/missing}}\<close> renders as the empty text on every object
  without the key \<^verbatim>\<open>missing\<close>.

  As stated (every key absent from the context) the claim fails: the lookup reads
  inherited properties too, so the key \<^verbatim>\<open>constructor\<close> resolves on the empty object,
  to a function, and the body is rendered.
\<close>

theorem C3_absent_key_counterexample:
  "render plain_runtime ''{{#constructor}}X{{/constructor}}'' (JObj []) = Inr ''X''"
  by (rule constructor_section)

theorem C3_falsy_section_removed:
  assumes "\<not> sublist ''{{#'' pre" and "wf_key k" and "\<not> sublist (close_tag k) body"
    and "getNestedValue rt data k = Inr v"
    and "v \<in> {JUndefined, JNull, JBool False, JNum 0, JStr [], JArr []}"
    and "sections rt data rest = Inr out"
  shows "sections rt data (pre @ open_tag k @ body @ close_tag k @ rest) = Inr (pre @ out)
    \<and> render rt (pre @ open_tag k @ body @ close_tag k @ rest) data = variables rt data (pre @ out)
    \<and> (CHR ''.'' \<notin> set key \<longrightarrow> map_of members key = None \<longrightarrow> objectProto key = JUndefined \<longrightarrow>
         getNestedValue rt (JObj members) key = Inr JUndefined)
    \<and> (map_of members ''missing'' = None \<longrightarrow>
         render rt ''{{#missing}}anything{{/missing}}'' (JObj members) = Inr [])"
proof -
  from assms(4,5) have "expand_section rt data k body = Inr []"
    by (auto simp: expand_section.simps)
  from render_block [OF assms(1,2,3) this assms(6)]
  have block: "sections rt data (pre @ open_tag k @ body @ close_tag k @ rest) = Inr (pre @ out)
    \<and> render rt (pre @ open_tag k @ body @ close_tag k @ rest) data = variables rt data (pre @ out)"
    by simp
  have absent: "getNestedValue rt (JObj members) key = Inr JUndefined"
    if "CHR ''.'' \<notin> set key" "map_of members key = None" "objectProto key = JUndefined"
    using that by (simp add: getNestedValue_segment)
  have missing: "render rt ''{{#missing}}anything{{/missing}}'' (JObj members) = Inr []"
    if a: "map_of members ''missing'' = None"
  proof -
    have "objectProto ''missing'' = JUndefined" by code_simp
    with a have "getNestedValue rt (JObj members) ''missing'' = Inr JUndefined"
      by (simp add: getNestedValue_segment)
    then have e: "expand_section rt (JObj members) ''missing'' ''anything'' = Inr []"
      by (simp add: expand_section.simps)
    have 0: "\<not> sublist ''{{#'' []" by simp
    have 1: "wf_key ''missing''" by (simp add: wf_key_def is_space_def)
    have 2: "\<not> sublist (close_tag ''missing'') ''anything''" by code_simp
    have 3: "sections rt (JObj members) [] = Inr []" by simp
    from render_block [OF 0 1 2 e 3] show ?thesis
      by (simp add: open_tag_def close_tag_def)
  qed
  from block absent missing show ?thesis by blast
qed

theorem C3_falsy_section_removed_witness:
  "render plain_runtime (''a'' @ open_tag ''flag'' @ ''X'' @ close_tag ''flag'' @ ''|{{#e}}Y{{/e}}|'')
     (JObj [(''flag'', JNum 0), (''e'', JArr [])]) = Inr ''a||''
   \<and> getNestedValue plain_runtime (JObj [(''flag'', JNum 0)]) ''missing'' = Inr JUndefined
   \<and> render plain_runtime ''{{#missing}}anything{{/missing}}'' (JObj [(''flag'', JNum 0)]) = Inr []"
proof -
  let ?data = "JObj [(''flag'', JNum 0), (''e'', JArr [])]"
  have 0: "\<not> sublist ''{{#'' ''a''" by code_simp
  have 1: "wf_key ''flag''" by (simp add: wf_key_def is_space_def)
  have 2: "\<not> sublist (close_tag ''flag'') ''X''" by code_simp
  have 3: "getNestedValue plain_runtime ?data ''flag'' = Inr (JNum 0)" by code_simp
  have 4: "JNum 0 \<in> {JUndefined, JNull, JBool False, JNum 0, JStr [], JArr []}" by simp
  have 5: "sections plain_runtime ?data ''|{{#e}}Y{{/e}}|'' = Inr ''||''" by code_simp
  have 6: "variables plain_runtime ?data (''a'' @ ''||'') = Inr ''a||''" by code_simp
  have 7: "CHR ''.'' \<notin> set ''missing''" "map_of [(''flag'', JNum 0)] ''missing'' = None"
    "objectProto ''missing'' = JUndefined" by code_simp+
  from C3_falsy_section_removed [OF 0 1 2 3 4 5, of "''missing''" "[(''flag'', JNum 0)]"] 6 7
  show ?thesis by simp
qed

text \<open>
  C4, as amended: the lookup descends one segment at a time. On a falsy value
  (\<^verbatim>\<open>undefined\<close>, \<^verbatim>\<open>null\<close>, \<^verbatim>\<open>false\<close>, \<^verbatim>\<open>0\<close>, the empty string) it returns not
  found; on any other value it reads the property of the segment, which for a mapping is
  its entry or else what \<^verbatim>\<open>Object.prototype\<close> has under that name, and goes on from what
  it read; \<^verbatim>\<open>{{a.b.c}}\<close> on \<^verbatim>\<open>{a: {b: {c: "deep"}}}\<close> renders \<^verbatim>\<open>deep\<close>.

  As stated (not found as soon as the current value is not a mapping) the claim fails:
  the code tests the current value for truthiness only, and a string has the properties
  \<^verbatim>\<open>length\<close> and its indices, so \<^verbatim>\<open>a.length\<close> resolves to 4 where \<^verbatim>\<open>a\<close> is
  \<^verbatim>\<open>"deep"\<close>.
\<close>

theorem C4_string_property_counterexample:
  "getNestedValue plain_runtime (JObj [(''a'', JStr ''deep'')]) ''a.length'' = Inr (JNum 4)
   \<and> render plain_runtime ''{{a.length}}'' (JObj [(''a'', JStr ''deep'')]) = Inr ''4''"
  by (rule string_length_path)

theorem C4_nested_lookup:
  assumes "CHR ''.'' \<notin> set k"
  shows "getNestedValue rt obj k = (if truthy obj then getProp rt obj k else Inr JUndefined)
    \<and> getNestedValue rt obj (k @ ''.'' @ rest) =
        (if truthy obj then bind (getProp rt obj k) (\<lambda>v. getNestedValue rt v rest)
         else Inr JUndefined)
    \<and> (\<not> truthy obj \<longrightarrow> getNestedValue rt obj path = Inr JUndefined)
    \<and> getProp rt (JObj members) k =
        Inr (case map_of members k of Some v \<Rightarrow> v | None \<Rightarrow> objectProto k)
    \<and> getProp rt (JStr s) ''length'' = Inr (JNum (int (length s)))
    \<and> render rt ''{{a.b.c}}'' (JObj [(''a'', JObj [(''b'', JObj [(''c'', JStr ''deep'')])])])
        = Inr ''deep''"
proof (intro conjI impI)
  show "getProp rt (JStr s) ''length'' = Inr (JNum (int (length s)))" by simp
  show "getNestedValue rt obj k = (if truthy obj then getProp rt obj k else Inr JUndefined)"
    by (rule getNestedValue_segment [OF assms])
  show "getNestedValue rt obj (k @ ''.'' @ rest) =
        (if truthy obj then bind (getProp rt obj k) (\<lambda>v. getNestedValue rt v rest)
         else Inr JUndefined)"
    by (rule getNestedValue_descend [OF assms])
  show "getNestedValue rt obj path = Inr JUndefined" if "\<not> truthy obj"
    using that by (rule getNestedValue_falsy)
  show "getProp rt (JObj members) k =
        Inr (case map_of members k of Some v \<Rightarrow> v | None \<Rightarrow> objectProto k)"
    by (simp split: option.splits)
  show "render rt ''{{a.b.c}}'' (JObj [(''a'', JObj [(''b'', JObj [(''c'', JStr ''deep'')])])])
        = Inr ''deep''"
    by code_simp
qed

theorem C4_nested_lookup_witness:
  "getNestedValue plain_runtime (JObj [(''a'', JObj [(''b'', JStr ''deep'')]), (''z'', JNum 0)]) ''a.b''
     = Inr (JStr ''deep'')
   \<and> getNestedValue plain_runtime (JObj [(''a'', JObj [(''b'', JStr ''deep'')]), (''z'', JNum 0)]) ''a''
     = Inr (JObj [(''b'', JStr ''deep'')])
   \<and> getNestedValue plain_runtime (JNum 0) ''z.b'' = Inr JUndefined"
proof -
  let ?obj = "JObj [(''a'', JObj [(''b'', JStr ''deep'')]), (''z'', JNum 0)]"
  have 1: "CHR ''.'' \<notin> set ''a''" by simp
  have 2: "\<not> truthy (JNum 0)" by simp
  have 3: "getNestedValue plain_runtime (JObj [(''b'', JStr ''deep'')]) ''b'' = Inr (JStr ''deep'')"
    by code_simp
  from C4_nested_lookup [OF 1, where rt = plain_runtime and obj = ?obj and rest = "''b''"]
    C4_nested_lookup [OF 1, where rt = plain_runtime and obj = "JNum 0" and path = "''z.b''"] 2 3
  show ?thesis by simp
qed



text \<open>
  C6, as amended: a section whose key resolves to a mapping is replaced by the body
  rendered once with that mapping as the context. A variable placeholder of the body
  whose key is not found in the mapping is left in place by that rendering, and the
  second replacement of the outer \<open>render\<close> then resolves it in the outer context: the
  block around the placeholder renders like the placeholder alone.

  As stated (lookups inside the body fall back to the outer context) the claim fails for
  the key of a nested section: it is looked up in the mapping only, and the nested
  section is removed although the outer context has a truthy value for the key.
\<close>

theorem C6_nested_section_counterexample:
  "render plain_runtime ''{{#m}}{{#t}}X{{/t}}{{/m}}''
     (JObj [(''m'', JObj [(''u'', JNum 1)]), (''t'', JStr ''yes'')]) = Inr []
   \<and> render plain_runtime ''{{#t}}X{{/t}}''
     (JObj [(''m'', JObj [(''u'', JNum 1)]), (''t'', JStr ''yes'')]) = Inr ''X''"
  by (rule nested_section_in_mapping)

theorem C6_mapping_section:
  assumes "\<not> sublist ''{{#'' pre" and "wf_key k" and "\<not> sublist (close_tag k) body"
    and "getNestedValue rt data k = Inr (JObj members)"
    and "render rt body (JObj members) = Inr r"
    and "sections rt data rest = Inr out"
  shows "sections rt data (pre @ open_tag k @ body @ close_tag k @ rest) = Inr (pre @ r @ out)
    \<and> render rt (pre @ open_tag k @ body @ close_tag k @ rest) data
        = variables rt data (pre @ r @ out)
    \<and> (wf_var v \<longrightarrow> getNestedValue rt (JObj members) v = Inr JUndefined \<longrightarrow>
         render rt (open_tag k @ var_tag v @ close_tag k) data = render rt (var_tag v) data)"
proof -
  from assms(4,5) have "expand_section rt data k body = Inr r"
    by (simp add: expand_section.simps)
  from render_block [OF assms(1,2,3) this assms(6)]
  have block: "sections rt data (pre @ open_tag k @ body @ close_tag k @ rest) = Inr (pre @ r @ out)
    \<and> render rt (pre @ open_tag k @ body @ close_tag k @ rest) data
        = variables rt data (pre @ r @ out)" .
  have fallback: "render rt (open_tag k @ var_tag v @ close_tag k) data = render rt (var_tag v) data"
    if v: "wf_var v" and u: "getNestedValue rt (JObj members) v = Inr JUndefined"
  proof -
    from assms(4) render_unresolved_var [OF v u]
    have e: "expand_section rt data k (var_tag v) = Inr (var_tag v)"
      by (simp add: expand_section.simps)
    have 0: "\<not> sublist ''{{#'' []" by simp
    have "sections rt data [] = Inr []" by simp
    from render_block [OF 0 assms(2) close_tag_not_in_var_tag [OF v] e this]
    have "render rt (open_tag k @ var_tag v @ close_tag k) data = variables rt data (var_tag v)"
      by simp
    moreover have "render rt (var_tag v) data = variables rt data (var_tag v)"
      using sections_var_tag [OF v, of rt data "[]"] by (simp add: render.simps)
    ultimately show ?thesis by simp
  qed
  from block fallback show ?thesis by blast
qed

theorem C6_mapping_section_witness:
  "render plain_runtime (''> '' @ open_tag ''m'' @ ''{{u}}-{{t}}'' @ close_tag ''m'' @ ''!'')
     (JObj [(''m'', JObj [(''u'', JNum 1)]), (''t'', JStr ''yes'')]) = Inr ''> 1-yes!''
   \<and> render plain_runtime (open_tag ''m'' @ var_tag ''t'' @ close_tag ''m'')
     (JObj [(''m'', JObj [(''u'', JNum 1)]), (''t'', JStr ''yes'')]) = Inr ''yes''"
proof -
  let ?data = "JObj [(''m'', JObj [(''u'', JNum 1)]), (''t'', JStr ''yes'')]"
  have 0: "\<not> sublist ''{{#'' ''> ''" by code_simp
  have 1: "wf_key ''m''" by (simp add: wf_key_def is_space_def)
  have 2: "\<not> sublist (close_tag ''m'') ''{{u}}-{{t}}''" by code_simp
  have 3: "getNestedValue plain_runtime ?data ''m'' = Inr (JObj [(''u'', JNum 1)])" by code_simp
  have 4: "render plain_runtime ''{{u}}-{{t}}'' (JObj [(''u'', JNum 1)]) = Inr ''1-{{t}}''"
    by code_simp
  have 5: "sections plain_runtime ?data ''!'' = Inr ''!''" by code_simp
  have 6: "variables plain_runtime ?data (''> '' @ ''1-{{t}}'' @ ''!'') = Inr ''> 1-yes!''"
    by code_simp
  have 7: "wf_var ''t''" by (simp add: wf_var_def wf_key_def is_space_def)
  have 8: "getNestedValue plain_runtime (JObj [(''u'', JNum 1)]) ''t'' = Inr JUndefined"
    by code_simp
  have 9: "render plain_runtime (var_tag ''t'') ?data = Inr ''yes''" by code_simp
  from C6_mapping_section [OF 0 1 2 3 4 5, of "''t''"] 6 7 8 9 show ?thesis by simp
qed

text \<open>
  C7, as amended: a section whose key resolves to a truthy primitive is replaced by the
  body rendered once with the primitive as the context. In that rendering a lookup is a
  property read on the primitive; a placeholder whose key reads as not found is left as
  it is. \<^verbatim>\<open>{{#flag}}X{{/flag}}\<close> on \<^verbatim>\<open>{flag: "yes"}\<close> renders \<^verbatim>\<open>X\<close>.

  As stated (every lookup against the primitive fails to resolve) the claim fails: a
  string has the property \<^verbatim>\<open>length\<close>, and \<^verbatim>\<open>{{length}}\<close> inside the section of
  \<^verbatim>\<open>"yes"\<close> renders \<^verbatim>\<open>3\<close>.
\<close>

theorem C7_string_length_counterexample:
  "render plain_runtime ''{{#flag}}{{length}}{{/flag}}'' (JObj [(''flag'', JStr ''yes'')]) = Inr ''3''"
  by (rule string_length_in_section)

theorem C7_primitive_section:
  assumes "\<not> sublist ''{{#'' pre" and "wf_key k" and "\<not> sublist (close_tag k) body"
    and "getNestedValue rt data k = Inr v" and "is_primitive v" and "truthy v"
    and "render rt body v = Inr r"
    and "sections rt data rest = Inr out"
  shows "sections rt data (pre @ open_tag k @ body @ close_tag k @ rest) = Inr (pre @ r @ out)
    \<and> render rt (pre @ open_tag k @ body @ close_tag k @ rest) data
        = variables rt data (pre @ r @ out)
    \<and> (wf_var q \<longrightarrow> getNestedValue rt v q = Inr JUndefined \<longrightarrow>
         render rt (var_tag q) v = Inr (var_tag q))
    \<and> (v = JStr s \<longrightarrow> getNestedValue rt v ''length'' = Inr (JNum (int (length s))))
    \<and> render rt ''{{#flag}}X{{/flag}}'' (JObj [(''flag'', JStr ''yes'')]) = Inr ''X''"
proof -
  from assms(4,5,6,7) have "expand_section rt data k body = Inr r"
    by (cases v) (simp_all add: expand_section.simps)
  from render_block [OF assms(1,2,3) this assms(8)]
  have block: "sections rt data (pre @ open_tag k @ body @ close_tag k @ rest) = Inr (pre @ r @ out)
    \<and> render rt (pre @ open_tag k @ body @ close_tag k @ rest) data
        = variables rt data (pre @ r @ out)" .
  have literal: "render rt (var_tag q) v = Inr (var_tag q)"
    if "wf_var q" "getNestedValue rt v q = Inr JUndefined"
    using that by (rule render_unresolved_var)
  have len: "getNestedValue rt v ''length'' = Inr (JNum (int (length s)))" if "v = JStr s"
    using that assms(6) by (simp add: getNestedValue_segment)
  have "render rt ''{{#flag}}X{{/flag}}'' (JObj [(''flag'', JStr ''yes'')]) = Inr ''X''"
    by code_simp
  with block literal len show ?thesis by blast
qed

theorem C7_primitive_section_witness:
  "render plain_runtime (''n: '' @ open_tag ''n'' @ ''<{{x}}>'' @ close_tag ''n'' @ ''!'')
     (JObj [(''n'', JNum 5)]) = Inr ''n: <{{x}}>!''
   \<and> render plain_runtime (var_tag ''x'') (JNum 5) = Inr ''{{x}}''
   \<and> getNestedValue plain_runtime (JStr ''yes'') ''length'' = Inr (JNum 3)"
proof -
  let ?data = "JObj [(''n'', JNum 5)]"
  have 0: "\<not> sublist ''{{#'' ''n: ''" by code_simp
  have 1: "wf_key ''n''" by (simp add: wf_key_def is_space_def)
  have 2: "\<not> sublist (close_tag ''n'') ''<{{x}}>''" by code_simp
  have 3: "getNestedValue plain_runtime ?data ''n'' = Inr (JNum 5)" by code_simp
  have 4: "is_primitive (JNum 5)" "truthy (JNum 5)" by simp_all
  have 5: "render plain_runtime ''<{{x}}>'' (JNum 5) = Inr ''<{{x}}>''" by code_simp
  have 6: "sections plain_runtime ?data ''!'' = Inr ''!''" by code_simp
  have 7: "variables plain_runtime ?data (''n: '' @ ''<{{x}}>'' @ ''!'') = Inr ''n: <{{x}}>!''"
    by code_simp
  have 8: "wf_var ''x''" by (simp add: wf_var_def wf_key_def is_space_def)
  have 9: "getNestedValue plain_runtime (JNum 5) ''x'' = Inr JUndefined" by code_simp
  have 10: "wf_key ''f''" by (simp add: wf_key_def is_space_def)
  have 11: "\<not> sublist (close_tag ''f'') ''X''" by code_simp
  have 12: "getNestedValue plain_runtime (JObj [(''f'', JStr ''yes'')]) ''f'' = Inr (JStr ''yes'')"
    by code_simp
  have 13: "is_primitive (JStr ''yes'')" "truthy (JStr ''yes'')" by simp_all
  have 14: "render plain_runtime ''X'' (JStr ''yes'') = Inr ''X''" by code_simp
  have 15: "sections plain_runtime (JObj [(''f'', JStr ''yes'')]) [] = Inr []" by simp
  from C7_primitive_section [OF 0 1 2 3 4 5 6, where q = "''x''"] 7 8 9
    C7_primitive_section [OF 0 10 11 12 13 14 15, where s = "''yes''"]
  show ?thesis
    by (simp add: var_tag_def)
qed

text \<open>
  C8: a text in which the expression of the variable placeholders matches nowhere (by
  \<open>has_placeholder_iff\<close>: a text without any \<^verbatim>\<open>{{key}}\<close> whose key is not empty and has
  no white space; a section tag is such a placeholder too) is rendered unchanged, on
  every context.
\<close>

theorem C8_plain_text_unchanged:
  assumes "\<not> has_placeholder s"
  shows "render rt s data = Inr s"
  using assms by (simp add: render.simps sections_plain variables_plain)

theorem C8_plain_text_unchanged_witness:
  "render plain_runtime ''<p>1\<newline>2 {{ not a tag }} {x}</p>'' (JObj [(''x'', JNum 1)])
     = Inr ''<p>1\<newline>2 {{ not a tag }} {x}</p>''"
proof -
  have "\<not> has_placeholder ''<p>1\<newline>2 {{ not a tag }} {x}</p>''" by code_simp
  from C8_plain_text_unchanged [OF this] show ?thesis .
qed

text \<open>
  C10: in a section over primitives the text of a string element is used as a replacement
  pattern, not as literal text. The element \<^verbatim>\<open>$&\<close> puts the placeholder itself at every
  \<^verbatim>\<open>{{.}}\<close>, so every body comes out unchanged and the text of the element is not in it;
  the element \<^verbatim>\<open>$$\<close> puts one dollar sign there; \<^verbatim>\<open>$'\<close> and \<^verbatim>\<open>$`\<close> put the text
  after and before the placeholder. In each case the result differs from
  \<open>literal_self\<close>, the literal replacement.
\<close>

theorem C10_self_reference_dollar_pattern:
  "replace_self ''$&'' [] body = body
   \<and> replace_self ''$$'' [] body = literal_self ''$'' body
   \<and> replace_self ''$&'' [] ''<{{.}}>'' \<noteq> literal_self ''$&'' ''<{{.}}>''
   \<and> replace_self ''$$'' [] ''<{{.}}>'' \<noteq> literal_self ''$$'' ''<{{.}}>''
   \<and> render rt ''{{#a}}{{.}}{{/a}}'' (JObj [(''a'', JArr [JStr ''$&''])]) = Inr ''{{.}}''
   \<and> render rt ''{{#a}}<{{.}}>{{/a}}''
        (JObj [(''a'', JArr [JStr ''$&'', JStr [CHR ''$'', CHR 0x27], JStr ''$`'', JStr ''$$1''])])
       = Inr ''<{{.}}>\<newline><>>\<newline><<>\<newline><$1>''
   \<and> \<not> sublist ''$&'' ''{{.}}''"
proof (intro conjI)
  show "replace_self ''$&'' [] body = body" by (rule replace_self_matched) simp
  show "replace_self ''$$'' [] body = literal_self ''$'' body" by (rule replace_self_dollar) simp
  show "replace_self ''$&'' [] ''<{{.}}>'' \<noteq> literal_self ''$&'' ''<{{.}}>''" by code_simp
  show "replace_self ''$$'' [] ''<{{.}}>'' \<noteq> literal_self ''$$'' ''<{{.}}>''" by code_simp
  show "render rt ''{{#a}}{{.}}{{/a}}'' (JObj [(''a'', JArr [JStr ''$&''])]) = Inr ''{{.}}''"
    by code_simp
  show "render rt ''{{#a}}<{{.}}>{{/a}}''
        (JObj [(''a'', JArr [JStr ''$&'', JStr [CHR ''$'', CHR 0x27], JStr ''$`'', JStr ''$$1''])])
       = Inr ''<{{.}}>\<newline><>>\<newline><<>\<newline><$1>''"
    by code_simp
  show "\<not> sublist ''$&'' ''{{.}}''" by code_simp
qed

end
